theory Spec2Isabelle
  imports Complex_Main "HOL-Library.Char_ord" "HOL-Library.List_Lexorder" "HOL-Library.Sublist"
begin

section \<open>RANGAN.py: the encode/decode pipeline around the adversarial training loop\<close>

text \<open>
  The script reads MIDI files through music21, turns them into a flat list of string
  tokens, encodes windows of tokens as numbers, trains two keras models and decodes the
  generator's output back into music21 notes and chords. The functions of the script are
  embedded below. What the two libraries compute (parsing a file, a training step, a
  prediction) is input data of the model; what the script itself computes (token
  extraction, vocabulary, windows, normalisation, denormalisation, note and chord
  construction, the order of the stages) is translated from its text.

  Python floats are idealised as \<^typ>\<open>real\<close>, Python's unbounded integers are
  \<^typ>\<open>int\<close> or \<^typ>\<open>nat\<close> where the source cannot produce a negative, strings
  are \<^typ>\<open>string\<close> and are compared as Python compares them, character by character
  by code point, a proper prefix first.
\<close>

subsection \<open>Exceptions\<close>

datatype error =
    KeyError          \<comment> \<open>a dictionary lookup with an absent key\<close>
  | IndexError        \<comment> \<open>an index outside a sequence\<close>
  | ValueError        \<comment> \<open>\<open>int\<close> of a string that is no integer literal\<close>
  | ZeroDivisionError \<comment> \<open>\<open>%\<close> with a zero divisor\<close>
  | LibraryError      \<comment> \<open>any exception raised inside music21, numpy or keras\<close>

subsection \<open>Python primitives used by the script\<close>

definition lookup :: "('k \<rightharpoonup> 'v) \<Rightarrow> 'k \<Rightarrow> error + 'v" where
  \<comment> \<open>\<open>d[k]\<close>\<close>
  "lookup d k = (case d k of None \<Rightarrow> Inl KeyError | Some v \<Rightarrow> Inr v)"

definition index :: "'a list \<Rightarrow> nat \<Rightarrow> error + 'a" where
  \<comment> \<open>\<open>xs[i]\<close> with \<open>i \<ge> 0\<close>\<close>
  "index xs i = (if i < length xs then Inr (xs ! i) else Inl IndexError)"

definition slice :: "'a list \<Rightarrow> nat \<Rightarrow> nat \<Rightarrow> 'a list" where
  \<comment> \<open>\<open>xs[i:j]\<close> with \<open>0 \<le> i\<close>: a slice never raises, it is cut at the end of the list\<close>
  "slice xs i j = take (j - i) (drop i xs)"

definition dict_of :: "('k \<times> 'v) list \<Rightarrow> ('k \<rightharpoonup> 'v)" where
  \<comment> \<open>\<open>dict(pairs)\<close>: the pairs are stored in order, a later pair overwrites an earlier one\<close>
  "dict_of ps = foldl (\<lambda>m (k, v). m(k \<mapsto> v)) Map.empty ps"

definition enumerate_py :: "'a list \<Rightarrow> (nat \<times> 'a) list" where
  \<comment> \<open>\<open>enumerate(xs)\<close>\<close>
  "enumerate_py xs = zip [0..<length xs] xs"

fun mapM :: "('a \<Rightarrow> error + 'b) \<Rightarrow> 'a list \<Rightarrow> error + 'b list" where
  \<comment> \<open>a list comprehension whose body may raise: the first exception ends it\<close>
  "mapM f [] = Inr []"
| "mapM f (x # xs) =
     (case f x of
        Inl e \<Rightarrow> Inl e
      | Inr y \<Rightarrow> (case mapM f xs of Inl e \<Rightarrow> Inl e | Inr ys \<Rightarrow> Inr (y # ys)))"

definition digits :: string where
  "digits = ''0123456789''"

definition is_digit :: "char \<Rightarrow> bool" where
  "is_digit c = (c \<in> set digits)"

definition isdigit :: "string \<Rightarrow> bool" where
  \<comment> \<open>\<open>s.isdigit()\<close> on an ASCII string: not empty and every character a decimal digit\<close>
  "isdigit s = (s \<noteq> [] \<and> list_all is_digit s)"

definition digit_val :: "char \<Rightarrow> nat" where
  "digit_val c = of_char c - 48"

definition int_of_str :: "string \<Rightarrow> error + int" where
  \<comment> \<open>\<open>int(s)\<close> on the strings \<open>create_midi\<close> passes to it, which are empty or one
      character long: a decimal digit string is read, anything else is a ValueError\<close>
  "int_of_str s =
     (if isdigit s then Inr (int (foldl (\<lambda>a c. 10 * a + digit_val c) 0 s))
      else Inl ValueError)"

fun split :: "char \<Rightarrow> string \<Rightarrow> string list" where
  \<comment> \<open>\<open>s.split(c)\<close>\<close>
  "split c [] = [[]]"
| "split c (x # xs) =
     (if x = c then [] # split c xs
      else (case split c xs of [] \<Rightarrow> [[x]] | p # ps \<Rightarrow> (x # p) # ps))"

fun join :: "string \<Rightarrow> string list \<Rightarrow> string" where
  \<comment> \<open>\<open>sep.join(parts)\<close>\<close>
  "join sep [] = []"
| "join sep [p] = p"
| "join sep (p # q # ps) = p @ sep @ join sep (q # ps)"

fun str_nat :: "nat \<Rightarrow> string" where
  \<comment> \<open>\<open>str(n)\<close> of a non-negative integer\<close>
  "str_nat n =
     (if n < 10 then [digits ! n] else str_nat (n div 10) @ [digits ! (n mod 10)])"

declare str_nat.simps [simp del]

definition py_int :: "real \<Rightarrow> int" where
  \<comment> \<open>\<open>int(x)\<close> of a float: truncation towards zero\<close>
  "py_int x = (if 0 \<le> x then \<lfloor>x\<rfloor> else \<lceil>x\<rceil>)"

subsection \<open>\<open>get_notes\<close>: the corpus scan\<close>

text \<open>
  An element of a parsed stream is a \<open>note.Note\<close>, of which the script reads
  \<open>str(element.pitch)\<close>, a \<open>chord.Chord\<close>, of which it reads \<open>element.normalOrder\<close>
  (a list of pitch classes, non-negative integers), or anything else.
\<close>

datatype element = Note string | Chord "nat list" | Other

text \<open>
  What music21 answers for one file. \<open>converter.parse(file)\<close> raises or gives a score;
  of the score, the two statements of the \<open>try\<close> block
  (\<open>instrument.partitionByInstrument(midi)\<close>, then \<open>s2.parts[0].recurse()\<close>) raise or
  give the elements, and so does \<open>midi.flat.notes\<close>.
\<close>

record score =
  by_instrument :: "error + element list"
  flat_notes :: "error + element list"

type_synonym midi_file = "error + score"

fun token :: "element \<Rightarrow> string option" where
  \<comment> \<open>the body of the loop over \<open>notes_to_parse\<close>: what one element appends\<close>
  "token (Note p) = Some p"
| "token (Chord normalOrder) = Some (join ''.'' (map str_nat normalOrder))"
| "token Other = None"

fun parse_elements :: "string list \<Rightarrow> element list \<Rightarrow> string list" where
  \<comment> \<open>\<open>for element in notes_to_parse\<close>, with the list \<open>notes\<close> passed through\<close>
  "parse_elements notes [] = notes"
| "parse_elements notes (element # rest) =
     (case token element of
        Some t \<Rightarrow> parse_elements (notes @ [t]) rest
      | None \<Rightarrow> parse_elements notes rest)"

definition notes_to_parse :: "score \<Rightarrow> error + element list" where
  \<comment> \<open>the \<open>try\<close> with its bare \<open>except\<close>: whatever the \<open>try\<close> block raises is dropped
      and \<open>midi.flat.notes\<close> is taken\<close>
  "notes_to_parse midi =
     (case by_instrument midi of
        Inr es \<Rightarrow> Inr es
      | Inl _ \<Rightarrow> flat_notes midi)"

fun scan_files :: "string list \<Rightarrow> midi_file list \<Rightarrow> error + string list" where
  \<comment> \<open>\<open>for file in glob.glob(...)\<close>, with the list \<open>notes\<close> passed through\<close>
  "scan_files notes [] = Inr notes"
| "scan_files notes (file # files) =
     (case file of
        Inl e \<Rightarrow> Inl e
      | Inr midi \<Rightarrow>
          (case notes_to_parse midi of
             Inl e \<Rightarrow> Inl e
           | Inr es \<Rightarrow> scan_files (parse_elements notes es) files))"

definition get_notes :: "midi_file list \<Rightarrow> error + string list" where
  "get_notes files = scan_files [] files"

text \<open>
  Two readings of the corpus, used to state what \<open>get_notes\<close> returns: the elements
  the inner loop runs over for a file, and the exception that leaves the body of the
  outer loop for a file.
\<close>

fun elements_of :: "midi_file \<Rightarrow> element list" where
  \<comment> \<open>the elements the inner loop runs over for one file (none when the file raised)\<close>
  "elements_of (Inl e) = []"
| "elements_of (Inr midi) = (case notes_to_parse midi of Inl e \<Rightarrow> [] | Inr es \<Rightarrow> es)"

fun file_error :: "midi_file \<Rightarrow> error option" where
  \<comment> \<open>the exception that leaves the body of the loop over the files, if any\<close>
  "file_error (Inl e) = Some e"
| "file_error (Inr midi) = (case notes_to_parse midi of Inl e \<Rightarrow> Some e | Inr es \<Rightarrow> None)"

subsection \<open>\<open>prepare_sequences\<close>: vocabulary, windows, normalisation\<close>

definition n_vocab :: "string list \<Rightarrow> nat" where
  \<comment> \<open>\<open>len(set(notes))\<close> in \<open>train\<close>\<close>
  "n_vocab notes = card (set notes)"

definition pitchnames :: "string list \<Rightarrow> string list" where
  \<comment> \<open>\<open>sorted(set(item for item in notes))\<close>\<close>
  "pitchnames notes = sorted_list_of_set (set notes)"

definition note_to_int :: "string list \<Rightarrow> (string \<rightharpoonup> nat)" where
  \<comment> \<open>\<open>dict((note, number) for number, note in enumerate(pitchnames))\<close>\<close>
  "note_to_int notes =
     dict_of (map (\<lambda>(number, note). (note, number)) (enumerate_py (pitchnames notes)))"

definition int_to_note :: "string list \<Rightarrow> (int \<rightharpoonup> string)" where
  \<comment> \<open>\<open>dict((number, note) for number, note in enumerate(pitchnames))\<close>, in \<open>generate\<close>\<close>
  "int_to_note notes =
     dict_of (map (\<lambda>(number, note). (int number, note)) (enumerate_py (pitchnames notes)))"

definition window :: "nat \<Rightarrow> string list \<Rightarrow> nat \<Rightarrow> error + (nat list \<times> nat)" where
  \<comment> \<open>one pass of the loop over \<open>i\<close>: the encoded slice and the encoded next token\<close>
  "window sequence_length notes i =
     (let sequence_in = slice notes i (i + sequence_length) in
      case index notes (i + sequence_length) of
        Inl e \<Rightarrow> Inl e
      | Inr sequence_out \<Rightarrow>
          (case mapM (lookup (note_to_int notes)) sequence_in of
             Inl e \<Rightarrow> Inl e
           | Inr codes \<Rightarrow>
               (case lookup (note_to_int notes) sequence_out of
                  Inl e \<Rightarrow> Inl e
                | Inr code \<Rightarrow> Inr (codes, code))))"

definition network_sequences :: "nat \<Rightarrow> string list \<Rightarrow> error + (nat list list \<times> nat list)" where
  \<comment> \<open>\<open>for i in range(0, len(notes) - sequence_length, 1)\<close>: the range is empty when
      the list is not longer than a window, which the truncating subtraction gives too\<close>
  "network_sequences sequence_length notes =
     (case mapM (window sequence_length notes) [0..<length notes - sequence_length] of
        Inl e \<Rightarrow> Inl e
      | Inr ws \<Rightarrow> Inr (map fst ws, map snd ws))"

definition normalize :: "nat \<Rightarrow> nat \<Rightarrow> real" where
  \<comment> \<open>\<open>(network_input - float(n_vocab) / 2) / (float(n_vocab) / 2)\<close> on one entry\<close>
  "normalize nv k = (real k - real nv / 2) / (real nv / 2)"

definition prepare_sequences ::
  "(nat list \<Rightarrow> error + 'y) \<Rightarrow> nat \<Rightarrow> string list \<Rightarrow> nat \<Rightarrow> error + (real list list \<times> 'y)" where
  \<comment> \<open>\<open>to_categorical\<close> is keras's; \<open>sequence_length\<close> is the global \<open>length\<close>. The
      reshape to \<open>(n_patterns, sequence_length, 1)\<close> keeps the entries and their order;
      the last axis, of size one, is not represented.\<close>
  "prepare_sequences to_categorical sequence_length notes nv =
     (case network_sequences sequence_length notes of
        Inl e \<Rightarrow> Inl e
      | Inr (network_input, network_output) \<Rightarrow>
          (case to_categorical network_output of
             Inl e \<Rightarrow> Inl e
           | Inr y \<Rightarrow> Inr (map (map (normalize nv)) network_input, y)))"

subsection \<open>\<open>create_midi\<close>: from tokens to notes and chords\<close>

text \<open>
  A music21 note is recorded by the argument of its constructor, a pitch name
  (\<open>note.Note(pattern)\<close>) or a number (\<open>note.Note(int(current_note))\<close>); an element of
  the output stream is a note or a chord with the offset the script gave it. Every
  note gets the same stored instrument, which is not represented. Whether music21
  accepts a pitch name is the parameter \<open>valid\<close>.
\<close>

datatype pitch_arg = Name string | Number int

datatype out_element = OutNote pitch_arg real | OutChord "pitch_arg list" real


definition chord_branch :: "string \<Rightarrow> bool" where
  \<comment> \<open>\<open>('.' in pattern) or pattern.isdigit()\<close>\<close>
  "chord_branch pattern = (CHR ''.'' \<in> set pattern \<or> isdigit pattern)"

definition new_element :: "(string \<Rightarrow> bool) \<Rightarrow> real \<Rightarrow> string \<Rightarrow> error + out_element" where
  \<comment> \<open>the body of the loop over \<open>prediction_output\<close>, up to the append\<close>
  "new_element valid offset item =
     (case index item 0 of
        Inl e \<Rightarrow> Inl e
      | Inr c \<Rightarrow>
          (let pattern = [c] in
           if chord_branch pattern then
             (case mapM int_of_str (split CHR ''.'' pattern) of
                Inl e \<Rightarrow> Inl e
              | Inr ns \<Rightarrow> Inr (OutChord (map Number ns) offset))
           else if valid pattern then Inr (OutNote (Name pattern) offset)
           else Inl LibraryError))"

fun output_loop ::
  "(string \<Rightarrow> bool) \<Rightarrow> real \<Rightarrow> real \<Rightarrow> out_element list \<Rightarrow> string list \<Rightarrow> error + out_element list" where
  \<comment> \<open>\<open>for item in prediction_output\<close>, with \<open>offset\<close> and \<open>output_notes\<close> passed through\<close>
  "output_loop valid offset_increment offset output_notes [] = Inr output_notes"
| "output_loop valid offset_increment offset output_notes (item # rest) =
     (case new_element valid offset item of
        Inl e \<Rightarrow> Inl e
      | Inr el \<Rightarrow>
          output_loop valid offset_increment (offset + offset_increment)
            (output_notes @ [el]) rest)"

definition create_midi ::
  "(string \<Rightarrow> bool) \<Rightarrow> real \<Rightarrow> string list \<Rightarrow> error + out_element list" where
  \<comment> \<open>the stream written to the file is the list \<open>output_notes\<close>\<close>
  "create_midi valid offset_increment prediction_output =
     output_loop valid offset_increment 0 [] prediction_output"

subsection \<open>\<open>GAN.generate\<close> and \<open>GAN.train\<close>\<close>

definition denormalize :: "real \<Rightarrow> int" where
  \<comment> \<open>\<open>int(x * 242 + 242)\<close>\<close>
  "denormalize x = py_int (x * 242 + 242)"

definition decode :: "string list \<Rightarrow> real list \<Rightarrow> error + string list" where
  \<comment> \<open>\<open>pred_notes = [int_to_note[int(x)] for x in pred_notes]\<close>\<close>
  "decode notes predictions = mapM (\<lambda>x. lookup (int_to_note notes) (denormalize x)) predictions"

definition generate ::
  "(string \<Rightarrow> bool) \<Rightarrow> real \<Rightarrow> string list \<Rightarrow> real list \<Rightarrow> error + out_element list" where
  \<comment> \<open>\<open>predictions\<close> is \<open>self.generator.predict(noise)[0]\<close>\<close>
  "generate valid offset_increment input_notes predictions =
     (case decode input_notes predictions of
        Inl e \<Rightarrow> Inl e
      | Inr pred_notes \<Rightarrow> create_midi valid offset_increment pred_notes)"

text \<open>
  \<open>train\<close> is a sequence of calls, each with effects: on the object (the weights of
  the networks, the two lists of losses) and on the disk (the MIDI file, the figure).
  A run is the state these calls pass along. So that the order of the calls can be
  stated, the state also lists the stages entered so far; a stage adds itself to the
  list when it is entered, before it does anything else, and \<open>train\<close> below names no
  stage: it only puts the calls in the order of the source.
\<close>

datatype stage =
    CorpusScan | VocabBuild | Windowing | Epoch nat | Sampling | LossPlot

record 'g run =
  calls :: "stage list"                        \<comment> \<open>the stages entered, the oldest first\<close>
  weights :: 'g                                \<comment> \<open>generator, discriminator and combined model\<close>
  disc_loss :: "real list"                     \<comment> \<open>\<open>self.disc_loss\<close>\<close>
  gen_loss :: "real list"                      \<comment> \<open>\<open>self.gen_loss\<close>\<close>
  midi_written :: "out_element list option"    \<comment> \<open>the stream \<open>create_midi\<close> wrote\<close>
  plot_saved :: "(real list \<times> real list) option"  \<comment> \<open>the two curves \<open>plot_loss\<close> saved\<close>

text \<open>
  What the libraries answer. \<open>train_on_batches\<close> stands for the numpy and keras calls
  of one epoch (the random batch and noise, \<open>predict\<close>, the three \<open>train_on_batch\<close>):
  from the epoch, the training windows and the weights it gives the new weights with
  \<open>d_loss_real[0]\<close>, \<open>d_loss_fake[0]\<close> and \<open>g_loss\<close>, or raises. \<open>predict\<close> is
  \<open>self.generator.predict(noise)[0]\<close> in \<open>generate\<close>.
\<close>

record ('g, 'y) library =
  files :: "midi_file list"
  to_categorical :: "nat list \<Rightarrow> error + 'y"
  train_on_batches :: "nat \<Rightarrow> real list list \<Rightarrow> 'g \<Rightarrow> error + ('g \<times> real \<times> real \<times> real)"
  predict :: "'g \<Rightarrow> real list"
  valid_name :: "string \<Rightarrow> bool"
  savefig :: "error option"

type_synonym ('a, 'g) prog = "'g run \<Rightarrow> (error + 'a) \<times> 'g run"

definition result :: "error + 'a \<Rightarrow> ('a, 'g) prog" where
  \<comment> \<open>a computation without effect: it raises or returns\<close>
  "result r s = (r, s)"

definition then_do :: "('a, 'g) prog \<Rightarrow> ('a \<Rightarrow> ('b, 'g) prog) \<Rightarrow> ('b, 'g) prog" where
  \<comment> \<open>one statement after another: an exception of the first ends both\<close>
  "then_do m f s = (case m s of (Inl e, s') \<Rightarrow> (Inl e, s') | (Inr a, s') \<Rightarrow> f a s')"

definition enter :: "stage \<Rightarrow> (unit, 'g) prog" where
  "enter c s = (Inr (), s\<lparr>calls := calls s @ [c]\<rparr>)"

definition call_get_notes :: "('g, 'y) library \<Rightarrow> (string list, 'g) prog" where
  \<comment> \<open>\<open>notes = get_notes()\<close>\<close>
  "call_get_notes lib = then_do (enter CorpusScan) (\<lambda>_. result (get_notes (files lib)))"

definition vocab_build :: "string list \<Rightarrow> (nat, 'g) prog" where
  \<comment> \<open>\<open>n_vocab = len(set(notes))\<close>\<close>
  "vocab_build notes = then_do (enter VocabBuild) (\<lambda>_. result (Inr (n_vocab notes)))"

definition call_prepare_sequences ::
  "('g, 'y) library \<Rightarrow> nat \<Rightarrow> string list \<Rightarrow> nat \<Rightarrow> (real list list \<times> 'y, 'g) prog" where
  \<comment> \<open>\<open>X_train, y_train = prepare_sequences(notes, n_vocab)\<close>\<close>
  "call_prepare_sequences lib sequence_length notes nv =
     then_do (enter Windowing)
       (\<lambda>_. result (prepare_sequences (to_categorical lib) sequence_length notes nv))"

definition epoch_body ::
  "('g, 'y) library \<Rightarrow> real list list \<Rightarrow> int \<Rightarrow> nat \<Rightarrow> (unit, 'g) prog" where
  \<comment> \<open>the body of the loop: the library calls change the weights, then
      \<open>if epoch % sample_interval == 0\<close> appends \<open>d_loss[0]\<close>, which is
      \<open>0.5 * (d_loss_real[0] + d_loss_fake[0])\<close>, and \<open>g_loss\<close> (the progress line
      printed there is not represented)\<close>
  "epoch_body lib X_train sample_interval epoch =
     then_do (enter (Epoch epoch))
       (\<lambda>_ s.
          case train_on_batches lib epoch X_train (weights s) of
            Inl e \<Rightarrow> (Inl e, s)
          | Inr (g, d_loss_real, d_loss_fake, g_loss) \<Rightarrow>
              (let s1 = s\<lparr>weights := g\<rparr> in
               if sample_interval = 0 then (Inl ZeroDivisionError, s1)
               else if int epoch mod sample_interval = 0
               then (Inr (), s1\<lparr>disc_loss := disc_loss s1 @ [0.5 * (d_loss_real + d_loss_fake)],
                                gen_loss := gen_loss s1 @ [g_loss]\<rparr>)
               else (Inr (), s1)))"

fun epochs_loop ::
  "('g, 'y) library \<Rightarrow> real list list \<Rightarrow> int \<Rightarrow> nat list \<Rightarrow> (unit, 'g) prog" where
  \<comment> \<open>\<open>for epoch in range(epochs)\<close>\<close>
  "epochs_loop lib X_train sample_interval [] = result (Inr ())"
| "epochs_loop lib X_train sample_interval (epoch # rest) =
     then_do (epoch_body lib X_train sample_interval epoch)
       (\<lambda>_. epochs_loop lib X_train sample_interval rest)"

definition call_generate ::
  "('g, 'y) library \<Rightarrow> real \<Rightarrow> string list \<Rightarrow> (unit, 'g) prog" where
  \<comment> \<open>\<open>self.generate(notes)\<close>: the prediction is made with the weights of the moment\<close>
  "call_generate lib offset_increment notes =
     then_do (enter Sampling)
       (\<lambda>_ s.
          case generate (valid_name lib) offset_increment notes (predict lib (weights s)) of
            Inl e \<Rightarrow> (Inl e, s)
          | Inr out \<Rightarrow> (Inr (), s\<lparr>midi_written := Some out\<rparr>))"

definition call_plot_loss :: "('g, 'y) library \<Rightarrow> (unit, 'g) prog" where
  \<comment> \<open>\<open>self.plot_loss()\<close>: the curves are the two lists of the moment\<close>
  "call_plot_loss lib =
     then_do (enter LossPlot)
       (\<lambda>_ s.
          case savefig lib of
            Some e \<Rightarrow> (Inl e, s)
          | None \<Rightarrow> (Inr (), s\<lparr>plot_saved := Some (disc_loss s, gen_loss s)\<rparr>))"

definition train ::
  "('g, 'y) library \<Rightarrow> nat \<Rightarrow> real \<Rightarrow> nat \<Rightarrow> int \<Rightarrow> (unit, 'g) prog" where
  \<comment> \<open>\<open>sequence_length\<close> and \<open>offset_increment\<close> are the globals \<open>length\<close> and
      \<open>offset_increment\<close>; \<open>batch_size\<close> only reaches the library calls. A negative
      \<open>epochs\<close> gives the empty range, as 0 does.\<close>
  "train lib sequence_length offset_increment epochs sample_interval =
     then_do (call_get_notes lib) (\<lambda>notes.
     then_do (vocab_build notes) (\<lambda>nv.
     then_do (call_prepare_sequences lib sequence_length notes nv) (\<lambda>(X_train, y_train).
     then_do (epochs_loop lib X_train sample_interval [0..<epochs]) (\<lambda>_.
     then_do (call_generate lib offset_increment notes) (\<lambda>_.
     call_plot_loss lib)))))"

text \<open>
  Two readings of a run, used to state its order: the stages in the order of the text
  of \<open>train\<close>, and the weights that the library calls of a list of epochs leave.
\<close>

definition pipeline :: "nat \<Rightarrow> stage list" where
  "pipeline epochs =
     [CorpusScan, VocabBuild, Windowing] @ map Epoch [0..<epochs] @ [Sampling, LossPlot]"

fun weights_after ::
  "('g, 'y) library \<Rightarrow> real list list \<Rightarrow> nat list \<Rightarrow> 'g \<Rightarrow> 'g" where
  "weights_after lib X_train [] g = g"
| "weights_after lib X_train (epoch # rest) g =
     (case train_on_batches lib epoch X_train g of
        Inl e \<Rightarrow> g
      | Inr (g', _) \<Rightarrow> weights_after lib X_train rest g')"

section \<open>Properties\<close>

subsection \<open>The range of the normalisation\<close>

text \<open>
  C5. For every vocabulary size \<open>n_vocab \<ge> 1\<close> and every token index \<open>k\<close> with
  \<open>0 \<le> k \<le> n_vocab - 1\<close>, the value \<open>(k - n_vocab/2) / (n_vocab/2)\<close> that
  \<open>prepare_sequences\<close> computes lies in the closed interval from \<open>-1\<close> to \<open>1\<close>.
\<close>

theorem normalize_range:
  assumes "1 \<le> nv" and "k \<le> nv - 1"
  shows "- 1 \<le> normalize nv k \<and> normalize nv k \<le> 1"
  using assms unfolding normalize_def by (simp add: field_simps)

theorem normalize_range_witness:
  "(1::nat) \<le> 4 \<and> (3::nat) \<le> 4 - 1 \<and> - 1 \<le> normalize 4 3 \<and> normalize 4 3 \<le> 1
   \<and> normalize 4 3 = 1 / 2 \<and> normalize 4 0 = - 1"
  using normalize_range [of 4 3] by (simp add: normalize_def)

subsection \<open>Dictionaries built from an enumeration\<close>

lemma foldl_upd: "foldl (\<lambda>m (k, v). m(k \<mapsto> v)) m ps = m ++ map_of (rev ps)"
  by (induction ps arbitrary: m) (auto simp: map_add_def fun_eq_iff split: option.splits)

lemma dict_of_rev: "dict_of ps = map_of (rev ps)"
  by (simp add: dict_of_def foldl_upd)

lemma dict_of_distinct: "distinct (map fst ps) \<Longrightarrow> dict_of ps = map_of ps"
  unfolding dict_of_rev
  by (subst map_of_inject_set) (simp_all add: rev_map [symmetric])

lemma distinct_pitchnames: "distinct (pitchnames notes)"
  by (simp add: pitchnames_def)

lemma sorted_pitchnames: "sorted (pitchnames notes)"
  by (simp add: pitchnames_def)

lemma set_pitchnames: "set (pitchnames notes) = set notes"
  by (simp add: pitchnames_def)

lemma length_pitchnames: "length (pitchnames notes) = n_vocab notes"
  by (simp add: pitchnames_def n_vocab_def)

lemma note_to_int_zip: "note_to_int notes = map_of (zip (pitchnames notes) [0..<n_vocab notes])"
proof -
  have "map (\<lambda>(number, note). (note, number)) (enumerate_py xs) = zip xs [0..<length xs]" for xs :: "string list"
    by (simp add: enumerate_py_def zip_commute [of xs] )
  then show ?thesis
    by (simp add: note_to_int_def dict_of_distinct distinct_pitchnames length_pitchnames)
qed

lemma int_to_note_zip: "int_to_note notes = map_of (zip (map int [0..<n_vocab notes]) (pitchnames notes))"
proof -
  have "map (\<lambda>(number, note). (int number, note)) (enumerate_py xs) = zip (map int [0..<length xs]) xs" for xs :: "string list"
    by (simp add: enumerate_py_def zip_map1)
  then show ?thesis
    by (simp add: int_to_note_def dict_of_distinct distinct_map length_pitchnames)
qed

lemma note_to_int_Some:
  "note_to_int notes t = Some i \<longleftrightarrow> i < n_vocab notes \<and> pitchnames notes ! i = t"
  unfolding note_to_int_zip
  by (subst map_of_eq_Some_iff) (auto simp: distinct_pitchnames length_pitchnames set_zip)

lemma int_to_note_Some:
  "int_to_note notes j = Some t \<longleftrightarrow> 0 \<le> j \<and> j < int (n_vocab notes) \<and> pitchnames notes ! nat j = t"
proof -
  have d: "distinct (map fst (zip (map int [0..<n_vocab notes]) (pitchnames notes)))"
    by (simp add: distinct_map length_pitchnames)
  have "(j, t) \<in> set (zip (map int [0..<n_vocab notes]) (pitchnames notes))
      \<longleftrightarrow> 0 \<le> j \<and> j < int (n_vocab notes) \<and> pitchnames notes ! nat j = t"
  proof
    assume "(j, t) \<in> set (zip (map int [0..<n_vocab notes]) (pitchnames notes))"
    then obtain i where "i < n_vocab notes" "j = int i" "t = pitchnames notes ! i"
      by (auto simp: set_zip length_pitchnames)
    then show "0 \<le> j \<and> j < int (n_vocab notes) \<and> pitchnames notes ! nat j = t" by simp
  next
    assume a: "0 \<le> j \<and> j < int (n_vocab notes) \<and> pitchnames notes ! nat j = t"
    then have "nat j < n_vocab notes" "j = int (nat j)" by linarith+
    with a show "(j, t) \<in> set (zip (map int [0..<n_vocab notes]) (pitchnames notes))"
      unfolding set_zip by (intro CollectI exI [of _ "nat j"]) (simp add: length_pitchnames)
  qed
  then show ?thesis
    unfolding int_to_note_zip using map_of_eq_Some_iff [OF d] by simp
qed

lemma dom_note_to_int: "dom (note_to_int notes) = set notes"
  unfolding note_to_int_zip by (simp add: length_pitchnames set_pitchnames)

lemma strict_sorted_pitchnames: "sorted_wrt (<) (pitchnames notes)"
  by (simp add: strict_sorted_iff sorted_pitchnames distinct_pitchnames)

lemma rank_nth:
  fixes xs :: "'a::linorder list"
  assumes "sorted_wrt (<) xs" and "i < length xs"
  shows "card {s \<in> set xs. s < xs ! i} = i"
proof -
  have eq: "{s \<in> set xs. s < xs ! i} = set (take i xs)"
  proof (intro set_eqI iffI)
    fix s assume "s \<in> {s \<in> set xs. s < xs ! i}"
    then obtain j where j: "j < length xs" "s = xs ! j" "xs ! j < xs ! i"
      by (auto simp: in_set_conv_nth)
    have "j < i"
    proof (rule ccontr)
      assume "\<not> j < i"
      then have "i = j \<or> i < j" by arith
      then have "xs ! i \<le> xs ! j"
        using assms(1) j(1) by (auto simp: sorted_wrt_iff_nth_less less_imp_le)
      with j(3) show False by simp
    qed
    with j assms(2) show "s \<in> set (take i xs)"
      by (auto simp: in_set_conv_nth intro!: exI [of _ j])
  next
    fix s assume "s \<in> set (take i xs)"
    then obtain j where "j < i" "s = xs ! j"
      using assms(2) by (auto simp: in_set_conv_nth)
    with assms show "s \<in> {s \<in> set xs. s < xs ! i}"
      by (auto simp: sorted_wrt_iff_nth_less)
  qed
  have "distinct (take i xs)"
    using assms(1) by (simp add: strict_sorted_iff)
  then have "card (set (take i xs)) = length (take i xs)"
    by (rule distinct_card)
  also have "\<dots> = i"
    using assms(2) by simp
  finally have "card (set (take i xs)) = i" .
  then show ?thesis
    by (subst eq)
qed

lemma note_to_int_rank:
  assumes "t \<in> set notes"
  shows "note_to_int notes t = Some (card {s \<in> set notes. s < t})"
proof -
  from assms have "t \<in> set (pitchnames notes)"
    by (simp add: set_pitchnames)
  then obtain i where i: "i < length (pitchnames notes)" "pitchnames notes ! i = t"
    unfolding in_set_conv_nth by blast
  have "card {s \<in> set (pitchnames notes). s < pitchnames notes ! i} = i"
    using strict_sorted_pitchnames i(1) by (rule rank_nth)
  then have "card {s \<in> set notes. s < t} = i"
    by (simp add: set_pitchnames i(2))
  with i show ?thesis
    by (simp add: note_to_int_Some length_pitchnames)
qed

subsection \<open>The vocabulary\<close>

text \<open>
  C7. For every list of notes, the dictionary \<open>note_to_int\<close> built by
  \<open>prepare_sequences\<close> is a bijection from the set of distinct tokens onto the integers
  \<open>0 .. n_vocab - 1\<close>; it gives each token its rank in the sorted order of the distinct
  tokens (the number of distinct tokens below it, which is its position in
  \<open>pitchnames\<close>); and \<open>n_vocab\<close>, computed in \<open>train\<close> as \<open>len(set(notes))\<close>, is the
  number of keys of that dictionary.
\<close>

theorem vocabulary_bijection:
  "dom (note_to_int notes) = set notes
   \<and> bij_betw (\<lambda>t. the (note_to_int notes t)) (set notes) {0..<n_vocab notes}
   \<and> (\<forall>t \<in> set notes. note_to_int notes t = Some (card {s \<in> set notes. s < t}))
   \<and> (\<forall>t i. note_to_int notes t = Some i \<longleftrightarrow> i < n_vocab notes \<and> pitchnames notes ! i = t)
   \<and> n_vocab notes = card (dom (note_to_int notes))
   \<and> n_vocab notes = length (pitchnames notes)"
proof (intro conjI)
  show "dom (note_to_int notes) = set notes" by (rule dom_note_to_int)
  show "\<forall>t \<in> set notes. note_to_int notes t = Some (card {s \<in> set notes. s < t})"
    by (simp add: note_to_int_rank)
  show "\<forall>t i. note_to_int notes t = Some i \<longleftrightarrow> i < n_vocab notes \<and> pitchnames notes ! i = t"
    by (simp add: note_to_int_Some)
  show "n_vocab notes = card (dom (note_to_int notes))"
    by (simp add: dom_note_to_int n_vocab_def)
  show "n_vocab notes = length (pitchnames notes)"
    by (simp add: length_pitchnames)
  show "bij_betw (\<lambda>t. the (note_to_int notes t)) (set notes) {0..<n_vocab notes}"
  proof (rule bij_betw_byWitness [where f' = "\<lambda>i. pitchnames notes ! i"])
    show "\<forall>t \<in> set notes. pitchnames notes ! the (note_to_int notes t) = t"
    proof
      fix t assume "t \<in> set notes"
      then obtain i where i: "note_to_int notes t = Some i"
        using dom_note_to_int [of "notes"] by blast
      then have "pitchnames notes ! i = t"
        using note_to_int_Some by blast
      with i show "pitchnames notes ! the (note_to_int notes t) = t"
        by simp
    qed
    show "\<forall>i \<in> {0..<n_vocab notes}. the (note_to_int notes (pitchnames notes ! i)) = i"
    proof
      fix i assume "i \<in> {0..<n_vocab notes}"
      then have "note_to_int notes (pitchnames notes ! i) = Some i"
        by (simp add: note_to_int_Some)
      then show "the (note_to_int notes (pitchnames notes ! i)) = i" by simp
    qed
    show "(\<lambda>t. the (note_to_int notes t)) ` set notes \<subseteq> {0..<n_vocab notes}"
    proof
      fix i assume "i \<in> (\<lambda>t. the (note_to_int notes t)) ` set notes"
      then obtain t where t: "t \<in> set notes" "i = the (note_to_int notes t)" by blast
      then obtain k where k: "note_to_int notes t = Some k"
        using dom_note_to_int [of "notes"] by blast
      then have "k < n_vocab notes"
        using note_to_int_Some by blast
      with t k show "i \<in> {0..<n_vocab notes}" by simp
    qed
    show "(\<lambda>i. pitchnames notes ! i) ` {0..<n_vocab notes} \<subseteq> set notes"
    proof
      fix t assume "t \<in> (\<lambda>i. pitchnames notes ! i) ` {0..<n_vocab notes}"
      then obtain i where i: "i \<in> {0..<n_vocab notes}" "t = pitchnames notes ! i"
        by blast
      from i(1) have "i < length (pitchnames notes)"
        by (simp add: length_pitchnames)
      with i(2) have "t \<in> set (pitchnames notes)"
        by (simp only: nth_mem)
      then show "t \<in> set notes" by (simp add: set_pitchnames)
    qed
  qed
qed

theorem vocabulary_bijection_witness:
  "''C4'' \<in> set [''C4'', ''0.4.7'', ''C4'', ''E4'']
   \<and> note_to_int [''C4'', ''0.4.7'', ''C4'', ''E4''] ''C4''
       = Some (card {s \<in> set [''C4'', ''0.4.7'', ''C4'', ''E4'']. s < ''C4''})
   \<and> note_to_int [''C4'', ''0.4.7'', ''C4'', ''E4''] ''C4'' = Some 1
   \<and> note_to_int [''C4'', ''0.4.7'', ''C4'', ''E4''] ''0.4.7'' = Some 0
   \<and> note_to_int [''C4'', ''0.4.7'', ''C4'', ''E4''] ''E4'' = Some 2
   \<and> n_vocab [''C4'', ''0.4.7'', ''C4'', ''E4''] = 3"
proof -
  have m: "''C4'' \<in> set [''C4'', ''0.4.7'', ''C4'', ''E4'']"
    by simp
  have r: "\<forall>t \<in> set [''C4'', ''0.4.7'', ''C4'', ''E4''].
             note_to_int [''C4'', ''0.4.7'', ''C4'', ''E4''] t
             = Some (card {s \<in> set [''C4'', ''0.4.7'', ''C4'', ''E4'']. s < t})"
    using vocabulary_bijection [of "[''C4'', ''0.4.7'', ''C4'', ''E4'']"] by blast
  have c1: "note_to_int [''C4'', ''0.4.7'', ''C4'', ''E4''] ''C4'' = Some 1"
    by code_simp
  have c2: "note_to_int [''C4'', ''0.4.7'', ''C4'', ''E4''] ''0.4.7'' = Some 0"
    by code_simp
  have c3: "note_to_int [''C4'', ''0.4.7'', ''C4'', ''E4''] ''E4'' = Some 2"
    by code_simp
  have c4: "n_vocab [''C4'', ''0.4.7'', ''C4'', ''E4''] = 3"
    by code_simp
  show ?thesis
    by (intro conjI m bspec [OF r m] c1 c2 c3 c4)
qed

subsection \<open>The windows of \<open>prepare_sequences\<close>\<close>

lemma mapM_Inr:
  assumes "\<And>x. x \<in> set xs \<Longrightarrow> f x = Inr (g x)"
  shows "mapM f xs = Inr (map g xs)"
  using assms by (induction xs) simp_all

lemma note_to_int_the:
  assumes "t \<in> set notes"
  shows "Some (the (note_to_int notes t)) = note_to_int notes t"
proof -
  from assms obtain i where "note_to_int notes t = Some i"
    using dom_note_to_int [of "notes"] by blast
  then show ?thesis by simp
qed

lemma lookup_note_to_int:
  assumes "t \<in> set notes"
  shows "lookup (note_to_int notes) t = Inr (the (note_to_int notes t))"
proof -
  from assms obtain i where "note_to_int notes t = Some i"
    using dom_note_to_int [of "notes"] by blast
  then show ?thesis by (simp add: lookup_def)
qed

lemma set_slice: "set (slice xs i j) \<subseteq> set xs"
  unfolding slice_def by (meson set_take_subset set_drop_subset subset_trans)

lemma length_slice: "i + n \<le> length xs \<Longrightarrow> length (slice xs i (i + n)) = n"
  by (simp add: slice_def)

lemma window_Inr:
  assumes "i + sequence_length < length notes"
  shows "window sequence_length notes i =
           Inr (map (\<lambda>t. the (note_to_int notes t)) (slice notes i (i + sequence_length)),
                the (note_to_int notes (notes ! (i + sequence_length))))"
proof -
  have a: "index notes (i + sequence_length) = Inr (notes ! (i + sequence_length))"
    using assms by (simp add: index_def)
  have b: "mapM (lookup (note_to_int notes)) (slice notes i (i + sequence_length))
           = Inr (map (\<lambda>t. the (note_to_int notes t)) (slice notes i (i + sequence_length)))"
  proof (rule mapM_Inr)
    fix t assume "t \<in> set (slice notes i (i + sequence_length))"
    then have "t \<in> set notes"
      by (rule subsetD [OF set_slice])
    then show "lookup (note_to_int notes) t = Inr (the (note_to_int notes t))"
      by (rule lookup_note_to_int)
  qed
  have c: "lookup (note_to_int notes) (notes ! (i + sequence_length))
           = Inr (the (note_to_int notes (notes ! (i + sequence_length))))"
    using assms by (intro lookup_note_to_int) simp
  show ?thesis
    by (simp add: window_def Let_def a b c)
qed

lemma network_sequences_Inr:
  "network_sequences sequence_length notes =
     Inr (map (\<lambda>i. map (\<lambda>t. the (note_to_int notes t)) (slice notes i (i + sequence_length)))
            [0..<length notes - sequence_length],
          map (\<lambda>i. the (note_to_int notes (notes ! (i + sequence_length))))
            [0..<length notes - sequence_length])"
proof -
  have "mapM (window sequence_length notes) [0..<length notes - sequence_length]
        = Inr (map (\<lambda>i. (map (\<lambda>t. the (note_to_int notes t)) (slice notes i (i + sequence_length)),
                the (note_to_int notes (notes ! (i + sequence_length)))))
               [0..<length notes - sequence_length])"
    by (rule mapM_Inr) (simp add: window_Inr)
  then show ?thesis
    by (simp add: network_sequences_def comp_def)
qed

text \<open>
  C4. For every list of notes longer than \<open>sequence_length\<close>, \<open>prepare_sequences\<close>
  builds exactly \<open>len(notes) - sequence_length\<close> input windows, one for each start
  \<open>i = 0, 1, ...\<close>; window \<open>i\<close> is the integer encoding of the slice
  \<open>notes[i : i + sequence_length]\<close> and has \<open>sequence_length\<close> entries, and output
  \<open>i\<close> is the integer code of \<open>notes[i + sequence_length]\<close>. The loop raises nothing,
  and what \<open>prepare_sequences\<close> returns is the normalised windows with keras's encoding
  of the outputs.
\<close>

theorem windows_shape:
  assumes "sequence_length < length notes"
  shows "\<exists>network_input network_output.
           network_sequences sequence_length notes = Inr (network_input, network_output)
         \<and> length network_input = length notes - sequence_length
         \<and> length network_output = length notes - sequence_length
         \<and> (\<forall>i < length notes - sequence_length.
               length (network_input ! i) = sequence_length
             \<and> map Some (network_input ! i)
                 = map (note_to_int notes) (slice notes i (i + sequence_length))
             \<and> slice notes i (i + sequence_length) = take sequence_length (drop i notes)
             \<and> Some (network_output ! i) = note_to_int notes (notes ! (i + sequence_length)))
         \<and> prepare_sequences to_cat sequence_length notes nv
             = (case to_cat network_output of
                  Inl e \<Rightarrow> Inl e
                | Inr y \<Rightarrow> Inr (map (map (normalize nv)) network_input, y))"
proof (intro exI conjI allI impI)
  let ?code = "\<lambda>t. the (note_to_int notes t)"
  let ?inp = "map (\<lambda>i. map ?code (slice notes i (i + sequence_length)))
                [0..<length notes - sequence_length]"
  let ?out = "map (\<lambda>i. ?code (notes ! (i + sequence_length)))
                [0..<length notes - sequence_length]"
  show ns: "network_sequences sequence_length notes = Inr (?inp, ?out)"
    by (rule network_sequences_Inr)
  show "length ?inp = length notes - sequence_length" by simp
  show "length ?out = length notes - sequence_length" by simp
  show "prepare_sequences to_cat sequence_length notes nv
             = (case to_cat ?out of
                  Inl e \<Rightarrow> Inl e
                | Inr y \<Rightarrow> Inr (map (map (normalize nv)) ?inp, y))"
    by (simp add: prepare_sequences_def ns)
  fix i assume i: "i < length notes - sequence_length"
  then show "length (?inp ! i) = sequence_length"
    by (simp add: length_slice)
  show "slice notes i (i + sequence_length) = take sequence_length (drop i notes)"
    by (simp add: slice_def)
  have "Some (?code t) = note_to_int notes t" if "t \<in> set notes" for t
    using that by (rule note_to_int_the)
  then have "map Some (map ?code (slice notes i (i + sequence_length)))
       = map (note_to_int notes) (slice notes i (i + sequence_length))"
    using set_slice [of "notes" i "i + sequence_length"] by (auto simp: subset_iff)
  with i show "map Some (?inp ! i) = map (note_to_int notes) (slice notes i (i + sequence_length))"
    by simp
  have "notes ! (i + sequence_length) \<in> set notes"
    using i by simp
  then have "Some (?code (notes ! (i + sequence_length))) = note_to_int notes (notes ! (i + sequence_length))"
    by (rule note_to_int_the)
  with i show "Some (?out ! i) = note_to_int notes (notes ! (i + sequence_length))"
    by simp
qed

theorem windows_shape_witness:
  "(2::nat) < length [''C4'', ''0.4.7'', ''C4'', ''E4'']
   \<and> network_sequences 2 [''C4'', ''0.4.7'', ''C4'', ''E4''] = Inr ([[1, 0], [0, 1]], [1, 2])
   \<and> length [[1, 0], [0, 1::nat]] = length [''C4'', ''0.4.7'', ''C4'', ''E4''] - 2"
proof -
  have l: "(2::nat) < length [''C4'', ''0.4.7'', ''C4'', ''E4'']" by simp
  have v: "network_sequences 2 [''C4'', ''0.4.7'', ''C4'', ''E4''] = Inr ([[1, 0], [0, 1]], [1, 2])"
    by code_simp
  from windows_shape [OF l, where to_cat = Inr and nv = 3]
  obtain network_input network_output where
    "network_sequences 2 [''C4'', ''0.4.7'', ''C4'', ''E4''] = Inr (network_input, network_output)"
    "length network_input = length [''C4'', ''0.4.7'', ''C4'', ''E4''] - 2"
    by blast
  with v have "length [[1, 0], [0, 1::nat]] = length [''C4'', ''0.4.7'', ''C4'', ''E4''] - 2"
    by simp
  with l v show ?thesis by (intro conjI)
qed

subsection \<open>The corpus scan\<close>

lemma parse_elements_append:
  "parse_elements notes es = notes @ List.map_filter token es"
  by (induction es arbitrary: "notes") (simp_all add: List.map_filter_simps split: option.splits)

lemma map_filter_token_append:
  "List.map_filter token (xs @ ys) = List.map_filter token xs @ List.map_filter token ys"
  by (simp add: List.map_filter_def)

lemma set_map_filter_token:
  "t \<in> set (List.map_filter token es) \<longleftrightarrow>
     (\<exists>p. Note p \<in> set es \<and> t = p)
     \<or> (\<exists>ns. Chord ns \<in> set es \<and> t = join ''.'' (map str_nat ns))"
proof (induction es)
  case Nil
  show ?case by (simp add: List.map_filter_simps)
next
  case (Cons e es)
  show ?case
    by (cases e) (auto simp: List.map_filter_simps Cons.IH)
qed

lemma scan_files_eq:
  "scan_files notes fs =
     (case List.map_filter file_error fs of
        e # _ \<Rightarrow> Inl e
      | [] \<Rightarrow> Inr (notes @ List.map_filter token (concat (map elements_of fs))))"
proof (induction fs arbitrary: "notes")
  case Nil
  show ?case by (simp add: List.map_filter_simps)
next
  case (Cons f fs)
  show ?case
  proof (cases f)
    case (Inl e)
    then show ?thesis by (simp add: List.map_filter_simps)
  next
    case (Inr midi)
    show ?thesis
    proof (cases "notes_to_parse midi")
      case (Inl e)
      with Inr show ?thesis by (simp add: List.map_filter_simps)
    next
      case es: (Inr es)
      with Inr show ?thesis
        by (simp add: List.map_filter_simps Cons.IH parse_elements_append
            map_filter_token_append split: list.splits)
    qed
  qed
qed

lemma get_notes_eq:
  "get_notes fs =
     (case List.map_filter file_error fs of
        e # _ \<Rightarrow> Inl e
      | [] \<Rightarrow> Inr (List.map_filter token (concat (map elements_of fs))))"
  by (simp add: get_notes_def scan_files_eq split: list.splits)



text \<open>
  C6. Every element of the list that \<open>get_notes\<close> returns is the pitch name of a
  \<open>Note\<close> element (\<open>str(element.pitch)\<close>) or the degrees of the normal order of a
  \<open>Chord\<close> element joined by dots; an element of any other type adds nothing; and the
  tokens stand in the order in which the files and their elements are run through.
\<close>

theorem token_shape:
  assumes "get_notes fs = Inr ts"
  shows "ts = List.map_filter token (concat (map elements_of fs))
       \<and> (\<forall>t \<in> set ts.
             (\<exists>p. Note p \<in> set (concat (map elements_of fs)) \<and> t = p)
           \<or> (\<exists>normalOrder. Chord normalOrder \<in> set (concat (map elements_of fs))
                 \<and> t = join ''.'' (map str_nat normalOrder)))
       \<and> List.map_filter token (xs @ Other # ys) = List.map_filter token (xs @ ys)"
proof (intro conjI ballI)
  show ts: "ts = List.map_filter token (concat (map elements_of fs))"
    using assms unfolding get_notes_eq by (simp split: list.splits)
  show "List.map_filter token (xs @ Other # ys) = List.map_filter token (xs @ ys)"
    by (simp add: map_filter_token_append List.map_filter_simps)
  fix t assume "t \<in> set ts"
  then show "(\<exists>p. Note p \<in> set (concat (map elements_of fs)) \<and> t = p)
           \<or> (\<exists>normalOrder. Chord normalOrder \<in> set (concat (map elements_of fs))
                 \<and> t = join ''.'' (map str_nat normalOrder))"
    unfolding ts set_map_filter_token .
qed

theorem token_shape_witness:
  "get_notes [Inr \<lparr>by_instrument = Inr [Note ''C4'', Other, Chord [0, 4, 7]], flat_notes = Inr []\<rparr>,
              Inr \<lparr>by_instrument = Inl LibraryError, flat_notes = Inr [Chord [10, 11], Note ''E-4'']\<rparr>]
     = Inr [''C4'', ''0.4.7'', ''10.11'', ''E-4'']
   \<and> [''C4'', ''0.4.7'', ''10.11'', ''E-4'']
     = List.map_filter token (concat (map elements_of
         [Inr \<lparr>by_instrument = Inr [Note ''C4'', Other, Chord [0, 4, 7]], flat_notes = Inr []\<rparr>,
          Inr \<lparr>by_instrument = Inl LibraryError, flat_notes = Inr [Chord [10, 11], Note ''E-4'']\<rparr>]))"
proof -
  have g: "get_notes [Inr \<lparr>by_instrument = Inr [Note ''C4'', Other, Chord [0, 4, 7]], flat_notes = Inr []\<rparr>,
              Inr \<lparr>by_instrument = Inl LibraryError, flat_notes = Inr [Chord [10, 11], Note ''E-4'']\<rparr>]
     = Inr [''C4'', ''0.4.7'', ''10.11'', ''E-4'']"
    by code_simp
  show ?thesis
    by (intro conjI g token_shape [OF g, THEN conjunct1])
qed




subsection \<open>The output stream of \<open>create_midi\<close>\<close>

lemma mapM_append:
  "mapM f (xs @ ys) =
     (case mapM f xs of
        Inl e \<Rightarrow> Inl e
      | Inr us \<Rightarrow> (case mapM f ys of Inl e \<Rightarrow> Inl e | Inr vs \<Rightarrow> Inr (us @ vs)))"
  by (induction xs) (simp_all split: sum.splits)

lemma mapM_cong:
  assumes "\<And>x. x \<in> set xs \<Longrightarrow> f x = g x"
  shows "mapM f xs = mapM g xs"
  using assms by (induction xs) (simp_all split: sum.splits)



lemma output_loop_eq:
  "output_loop valid inc off acc items =
     (case mapM (\<lambda>(i, item). new_element valid (off + real i * inc) item)
             (enumerate_py items) of
        Inl e \<Rightarrow> Inl e
      | Inr els \<Rightarrow> Inr (acc @ els))"
proof (induction items arbitrary: off acc)
  case Nil
  show ?case by (simp add: enumerate_py_def)
next
  case (Cons item rest)
  have shift: "mapM (\<lambda>(i, item). new_element valid (off + real i * inc) item)
                 (zip [Suc 0..<Suc (length rest)] rest)
             = mapM (\<lambda>(i, item). new_element valid (off + inc + real i * inc) item)
                 (zip [0..<length rest] rest)"
  proof -
    have z: "zip [Suc 0..<Suc (length rest)] rest
             = map (\<lambda>(i, item). (Suc i, item)) (zip [0..<length rest] rest)"
      by (simp add: map_Suc_upt [symmetric] zip_map1 del: upt_Suc)
    have m: "mapM f (map g xs) = mapM (\<lambda>x. f (g x)) xs"
      for f :: "nat \<times> string \<Rightarrow> error + out_element" and g xs
      by (induction xs) (simp_all split: sum.splits)
    show ?thesis
      unfolding z m by (rule mapM_cong) (auto simp: algebra_simps)
  qed
  show ?case
    by (simp add: enumerate_py_def upt_conv_Cons shift Cons.IH [unfolded enumerate_py_def]
        del: upt_Suc split: sum.splits)
qed

lemma create_midi_eq:
  "create_midi valid inc items =
     mapM (\<lambda>(i, item). new_element valid (real i * inc) item) (enumerate_py items)"
  by (simp add: create_midi_def output_loop_eq split: sum.splits)






subsection \<open>Decoding an item from its first character\<close>

lemma chord_branch_single:
  "chord_branch [c] \<longleftrightarrow> c = CHR ''.'' \<or> is_digit c"
  by (auto simp: chord_branch_def isdigit_def)

lemma is_digit_not_dot: "is_digit c \<Longrightarrow> c \<noteq> CHR ''.''"
  by (auto simp: is_digit_def digits_def)

lemma new_element_first:
  assumes "item \<noteq> []" and "hd item \<noteq> CHR ''.''"
  shows "new_element valid off item =
           (if is_digit (hd item) then Inr (OutChord [Number (int (digit_val (hd item)))] off)
            else if valid [hd item] then Inr (OutNote (Name [hd item]) off)
            else Inl LibraryError)"
proof -
  from assms(1) obtain c cs where item: "item = c # cs" by (cases item) auto
  with assms(2) have c: "c \<noteq> CHR ''.''" by simp
  show ?thesis
    using c by (simp add: item new_element_def index_def chord_branch_single
        int_of_str_def isdigit_def)
qed

lemma new_element_empty: "new_element valid off [] = Inl IndexError"
  by (simp add: new_element_def index_def)

lemma new_element_dot: "new_element valid off (CHR ''.'' # cs) = Inl ValueError"
  by (simp add: new_element_def index_def chord_branch_single int_of_str_def isdigit_def)

lemma is_digit_digits: "n < 10 \<Longrightarrow> is_digit (digits ! n)"
  unfolding is_digit_def by (rule nth_mem) (simp add: digits_def)

lemma str_nat_digit: "str_nat n \<noteq> [] \<and> is_digit (hd (str_nat n))"
proof (induction n rule: str_nat.induct)
  case (1 n)
  show ?case
  proof (cases "n < 10")
    case True
    then show ?thesis
      by (subst (1 2) str_nat.simps) (simp add: is_digit_digits)
  next
    case False
    with 1 have "str_nat (n div 10) \<noteq> [] \<and> is_digit (hd (str_nat (n div 10)))" by simp
    with False show ?thesis
      by (subst (1 2) str_nat.simps) simp
  qed
qed

lemma chord_token_digit:
  assumes "normalOrder \<noteq> []"
  shows "join ''.'' (map str_nat normalOrder) \<noteq> []
       \<and> is_digit (hd (join ''.'' (map str_nat normalOrder)))"
proof -
  from assms obtain n ns where n: "normalOrder = n # ns" by (cases normalOrder) auto
  show ?thesis
    using str_nat_digit [of n] by (cases ns) (simp_all add: n)
qed

text \<open>
  C9. For every list of tokens given to \<open>create_midi\<close> as \<open>generate\<close> gives them,
  tokens of the corpus, which are pitch names (starting with a letter) or dot-joined
  degrees (starting with a digit, see \<open>chord_token_digit\<close>) and so neither empty nor
  starting with a dot, each item is decoded from its first character only: the result
  is the same when every item is cut down to its first character; the chord branch is
  taken exactly when that character is a decimal digit; every chord built holds exactly
  one note, the one numbered by that digit, however many degrees the token lists; and
  otherwise one note is built with the first character as its pitch name.
\<close>

theorem first_character_decoding:
  assumes "\<forall>item \<in> set prediction_output. item \<noteq> [] \<and> hd item \<noteq> CHR ''.''"
  shows "create_midi valid offset_increment prediction_output
           = create_midi valid offset_increment (map (\<lambda>item. [hd item]) prediction_output)
       \<and> create_midi valid offset_increment prediction_output
           = mapM (\<lambda>(i, item).
               if is_digit (hd item)
               then Inr (OutChord [Number (int (digit_val (hd item)))] (real i * offset_increment))
               else if valid [hd item]
               then Inr (OutNote (Name [hd item]) (real i * offset_increment))
               else Inl LibraryError)
              (enumerate_py prediction_output)
       \<and> (\<forall>item \<in> set prediction_output. chord_branch [hd item] \<longleftrightarrow> is_digit (hd item))"
proof (intro conjI ballI)
  let ?f = "\<lambda>(i, item).
               if is_digit (hd item)
               then Inr (OutChord [Number (int (digit_val (hd item)))] (real i * offset_increment))
               else if valid [hd item]
               then Inr (OutNote (Name [hd item]) (real i * offset_increment))
               else Inl LibraryError"
  show eq: "create_midi valid offset_increment prediction_output = mapM ?f (enumerate_py prediction_output)"
    unfolding create_midi_eq
  proof (rule mapM_cong)
    fix x assume "x \<in> set (enumerate_py prediction_output)"
    then have "(fst x, snd x) \<in> set (zip [0..<length prediction_output] prediction_output)"
      by (simp only: enumerate_py_def prod.collapse)
    then have "snd x \<in> set prediction_output"
      by (rule set_zip_rightD)
    with assms have "snd x \<noteq> []" "hd (snd x) \<noteq> CHR ''.''" by auto
    then show "(case x of (i, item) \<Rightarrow> new_element valid (real i * offset_increment) item) = ?f x"
      by (simp add: case_prod_unfold new_element_first)
  qed
  have "create_midi valid offset_increment (map (\<lambda>item. [hd item]) prediction_output)
        = mapM ?f (enumerate_py prediction_output)"
  proof -
    have e: "enumerate_py (map (\<lambda>item. [hd item]) prediction_output)
          = map (\<lambda>(i, item). (i, [hd item])) (enumerate_py prediction_output)"
      by (simp add: enumerate_py_def zip_map2 case_prod_unfold)
    have m: "mapM f (map g xs) = mapM (\<lambda>x. f (g x)) xs"
      for f :: "nat \<times> string \<Rightarrow> error + out_element" and g :: "nat \<times> string \<Rightarrow> nat \<times> string" and xs
      by (induction xs) (simp_all split: sum.splits)
    show ?thesis
      unfolding create_midi_eq e m
    proof (rule mapM_cong)
      fix x assume "x \<in> set (enumerate_py prediction_output)"
      then have "(fst x, snd x) \<in> set (zip [0..<length prediction_output] prediction_output)"
        by (simp only: enumerate_py_def prod.collapse)
      then have "snd x \<in> set prediction_output"
        by (rule set_zip_rightD)
      with assms have "hd (snd x) \<noteq> CHR ''.''" by auto
      then show "(case (case x of (i, item) \<Rightarrow> (i, [hd item])) of
                   (i, item) \<Rightarrow> new_element valid (real i * offset_increment) item) = ?f x"
        by (simp add: case_prod_unfold new_element_first)
    qed
  qed
  with eq show "create_midi valid offset_increment prediction_output
           = create_midi valid offset_increment (map (\<lambda>item. [hd item]) prediction_output)"
    by simp
next
  fix item assume "item \<in> set prediction_output"
  with assms have "hd item \<noteq> CHR ''.''" by auto
  then show "chord_branch [hd item] \<longleftrightarrow> is_digit (hd item)"
    by (simp add: chord_branch_single)
qed


theorem first_character_decoding_witness:
  "''C4'' \<noteq> [] \<and> hd ''C4'' \<noteq> CHR ''.''
   \<and> ''0.4.7'' \<noteq> [] \<and> hd ''0.4.7'' \<noteq> CHR ''.''
   \<and> ''E-4'' \<noteq> [] \<and> hd ''E-4'' \<noteq> CHR ''.''
   \<and> create_midi (\<lambda>s. hd s \<in> set ''ABCDEFG'') (1 / 2) [''C4'', ''0.4.7'', ''E-4'']
       = create_midi (\<lambda>s. hd s \<in> set ''ABCDEFG'') (1 / 2)
           (map (\<lambda>item. [hd item]) [''C4'', ''0.4.7'', ''E-4''])
   \<and> create_midi (\<lambda>s. hd s \<in> set ''ABCDEFG'') (1 / 2) [''C4'', ''0.4.7'', ''E-4'']
       = Inr [OutNote (Name ''C'') 0, OutChord [Number 0] (1 / 2), OutNote (Name ''E'') 1]"
proof -
  have h: "\<forall>item \<in> set [''C4'', ''0.4.7'', ''E-4'']. item \<noteq> [] \<and> hd item \<noteq> CHR ''.''"
    by simp
  have v: "create_midi (\<lambda>s. hd s \<in> set ''ABCDEFG'') (1 / 2) [''C4'', ''0.4.7'', ''E-4'']
       = Inr [OutNote (Name ''C'') 0, OutChord [Number 0] (1 / 2), OutNote (Name ''E'') 1]"
    by code_simp
  have d: "''C4'' \<noteq> [] \<and> hd ''C4'' \<noteq> CHR ''.''
      \<and> ''0.4.7'' \<noteq> [] \<and> hd ''0.4.7'' \<noteq> CHR ''.''
      \<and> ''E-4'' \<noteq> [] \<and> hd ''E-4'' \<noteq> CHR ''.''"
    by simp
  from d v first_character_decoding [OF h, THEN conjunct1] show ?thesis
    by (elim conjE) (intro conjI)
qed

subsection \<open>Decoding the generator's output\<close>

text \<open>
  \<open>generate\<close> maps an output \<open>x\<close> to the key \<open>int(x * 242 + 242)\<close>. In exact
  arithmetic, for outputs in the open interval from \<open>-1\<close> to \<open>1\<close> the key lies in
  \<open>0 .. 483\<close>; a key that is found gives a token of the corpus; every key is found
  when the corpus has at least 484 distinct tokens, and with fewer some output in the
  interval has no key. On a vocabulary of 484 tokens the key of a normalised index is
  that index. (The bound 483 is one of the reals: in single precision an output just
  below 1 is rounded to the key 484.)
\<close>

lemma roundtrip_484:
  assumes "k < 484"
  shows "denormalize (normalize 484 k) = int k"
proof -
  have "normalize 484 k * 242 + 242 = real k"
    by (simp add: normalize_def field_simps)
  then show ?thesis
    by (simp add: denormalize_def py_int_def)
qed

lemma denormalize_range:
  assumes "- 1 < x" and "x < 1"
  shows "0 \<le> denormalize x \<and> denormalize x \<le> 483"
proof -
  from assms have y: "0 < x * 242 + 242" "x * 242 + 242 < 484" by simp_all
  from y(1) have "0 \<le> \<lfloor>x * 242 + 242\<rfloor>"
    by (simp only: zero_le_floor less_imp_le)
  moreover from y(2) have "\<lfloor>x * 242 + 242\<rfloor> < 484"
    by (simp only: floor_less_iff of_int_numeral)
  ultimately show ?thesis
    using y(1) unfolding denormalize_def py_int_def by simp
qed
lemma mapM_set:
  "mapM f xs = Inr ys \<Longrightarrow> y \<in> set ys \<Longrightarrow> \<exists>x \<in> set xs. f x = Inr y"
  by (induction xs arbitrary: ys) (auto split: sum.splits)

lemma lookup_int_to_note:
  "lookup (int_to_note notes) k =
     (if 0 \<le> k \<and> k < int (n_vocab notes) then Inr (pitchnames notes ! nat k)
      else Inl KeyError)"
proof (cases "int_to_note notes k")
  case None
  then have "\<not> (0 \<le> k \<and> k < int (n_vocab notes))"
    using int_to_note_Some [of "notes" k "pitchnames notes ! nat k"] by auto
  with None show ?thesis by (simp add: lookup_def)
next
  case (Some t)
  then show ?thesis
    using int_to_note_Some [of "notes" k t] by (simp add: lookup_def)
qed

lemma decode_in_corpus:
  assumes "decode notes ps = Inr ts"
  shows "set ts \<subseteq> set notes"
proof
  fix t assume "t \<in> set ts"
  with assms obtain x where "lookup (int_to_note notes) (denormalize x) = Inr t"
    unfolding decode_def by (blast dest: mapM_set)
  then have "t = pitchnames notes ! nat (denormalize x)"
    and "nat (denormalize x) < length (pitchnames notes)"
    by (auto simp: lookup_int_to_note length_pitchnames split: if_splits)
  then have "t \<in> set (pitchnames notes)" by simp
  then show "t \<in> set notes" by (simp add: set_pitchnames)
qed

lemma decode_total_484:
  assumes "484 \<le> n_vocab notes" and "\<And>x. x \<in> set ps \<Longrightarrow> - 1 < x \<and> x < 1"
  shows "decode notes ps = Inr (map (\<lambda>x. pitchnames notes ! nat (denormalize x)) ps)"
  unfolding decode_def
proof (rule mapM_Inr)
  fix x assume "x \<in> set ps"
  then have "0 \<le> denormalize x \<and> denormalize x \<le> 483"
    using assms(2) denormalize_range by blast
  with assms(1) show "lookup (int_to_note notes) (denormalize x)
      = Inr (pitchnames notes ! nat (denormalize x))"
    by (simp add: lookup_int_to_note)
qed

lemma decode_fails_below_484:
  assumes "n_vocab notes < 484"
  shows "\<exists>x. - 1 < x \<and> x < 1 \<and> decode notes [x] = Inl KeyError"
proof (intro exI conjI)
  let ?x = "(real (n_vocab notes) + 1 / 2 - 242) / 242"
  show "- 1 < ?x" by simp
  show "?x < 1" using assms by simp
  have "?x * 242 + 242 = real (n_vocab notes) + 1 / 2"
    by (simp add: field_simps)
  moreover have "\<lfloor>real (n_vocab notes) + 1 / 2\<rfloor> = int (n_vocab notes)"
    by (simp add: floor_eq_iff)
  ultimately have "denormalize ?x = int (n_vocab notes)"
    unfolding denormalize_def py_int_def by simp
  then show "decode notes [?x] = Inl KeyError"
    by (simp add: decode_def lookup_int_to_note)
qed

text \<open>
  C1. Every token that \<open>generate\<close> decodes from the generator's output is to be a
  token of the training corpus: for outputs in the range of \<open>tanh\<close> the lookup
  \<open>int_to_note[int(x * 242 + 242)]\<close> is never to fail, whatever the size of the
  vocabulary. The code does not keep this. \<open>prepare_sequences\<close> normalises by half of
  \<open>n_vocab\<close>, \<open>generate\<close> denormalises by the constant 242: on a corpus with one
  distinct token and the output \<open>1/2\<close> the key is 363, the dictionary holds the key 0
  only, and \<open>generate\<close> ends with a \<open>KeyError\<close>.
\<close>

theorem generate_key_error:
  "- 1 < (1 / 2 :: real) \<and> (1 / 2 :: real) < 1
   \<and> n_vocab [''C4''] = 1
   \<and> denormalize (1 / 2) = 363
   \<and> int_to_note [''C4''] 363 = None
   \<and> decode [''C4''] [1 / 2] = Inl KeyError
   \<and> generate (\<lambda>s. True) (1 / 2) [''C4''] [1 / 2] = Inl KeyError"
  by code_simp

text \<open>
  C2. Decoding is to invert encoding: the key \<open>int(x * 242 + 242)\<close> of the value
  \<open>x = (k - n_vocab/2) / (n_vocab/2)\<close> that \<open>prepare_sequences\<close> gives the index \<open>k\<close> is
  to be \<open>k\<close> again, for every vocabulary size and every index below it. The code does
  not keep this, by the same constant 242: with two tokens the index 1 is encoded as 0
  and decoded as 242.
\<close>

theorem roundtrip_mismatch:
  "(1::nat) \<le> 2 \<and> (1::nat) \<le> 2 - 1
   \<and> normalize 2 1 = 0
   \<and> denormalize (normalize 2 1) = 242
   \<and> denormalize (normalize 2 1) \<noteq> 1"
  by (simp add: normalize_def denormalize_def py_int_def)

subsection \<open>The order of the stages of \<open>train\<close>\<close>

lemma then_do_cases:
  assumes "then_do m f s = (r, s')"
  obtains (raised) e where "m s = (Inl e, s')" and "r = Inl e"
        | (returned) a s1 where "m s = (Inr a, s1)" and "f a s1 = (r, s')"
  using assms unfolding then_do_def by (auto split: prod.splits sum.splits)

lemma call_get_notes_eq:
  "call_get_notes lib s = (get_notes (files lib), s\<lparr>calls := calls s @ [CorpusScan]\<rparr>)"
  by (simp add: call_get_notes_def then_do_def enter_def result_def)

lemma vocab_build_eq:
  "vocab_build notes s = (Inr (n_vocab notes), s\<lparr>calls := calls s @ [VocabBuild]\<rparr>)"
  by (simp add: vocab_build_def then_do_def enter_def result_def)

lemma call_prepare_sequences_eq:
  "call_prepare_sequences lib sequence_length notes nv s =
     (prepare_sequences (to_categorical lib) sequence_length notes nv,
      s\<lparr>calls := calls s @ [Windowing]\<rparr>)"
  by (simp add: call_prepare_sequences_def then_do_def enter_def result_def)

lemma epoch_body_effect:
  assumes "epoch_body lib X si epoch s = (r, s')"
  shows "calls s' = calls s @ [Epoch epoch]
       \<and> midi_written s' = midi_written s \<and> plot_saved s' = plot_saved s
       \<and> (r = Inr () \<longrightarrow>
            weights s' = weights_after lib X [epoch] (weights s)
          \<and> (\<exists>g l. train_on_batches lib epoch X (weights s) = Inr (g, l))
          \<and> length (disc_loss s') = length (disc_loss s) + length (filter (\<lambda>e. int e mod si = 0) [epoch])
          \<and> length (gen_loss s') = length (gen_loss s) + length (filter (\<lambda>e. int e mod si = 0) [epoch]))"
  using assms
  by (auto simp: epoch_body_def then_do_def enter_def Let_def split: sum.splits prod.splits if_splits)

lemma weights_after_Cons:
  "train_on_batches lib epoch X g = Inr (g', l) \<Longrightarrow>
     weights_after lib X (epoch # rest) g = weights_after lib X rest g'"
  by simp

lemma epochs_loop_effect:
  assumes "epochs_loop lib X si es s = (r, s')"
  shows "(\<exists>tr. calls s' = calls s @ tr \<and> prefix tr (map Epoch es)
              \<and> (r = Inr () \<longrightarrow> tr = map Epoch es))
       \<and> midi_written s' = midi_written s \<and> plot_saved s' = plot_saved s
       \<and> (r = Inr () \<longrightarrow>
            weights s' = weights_after lib X es (weights s)
          \<and> length (disc_loss s') = length (disc_loss s) + length (filter (\<lambda>e. int e mod si = 0) es)
          \<and> length (gen_loss s') = length (gen_loss s) + length (filter (\<lambda>e. int e mod si = 0) es))"
  using assms
proof (induction es arbitrary: s)
  case Nil
  then show ?case by (simp add: result_def)
next
  case (Cons epoch rest)
  from Cons.prems have "then_do (epoch_body lib X si epoch) (\<lambda>_. epochs_loop lib X si rest) s = (r, s')"
    by simp
  then show ?case
  proof (cases rule: then_do_cases)
    case (raised e)
    from epoch_body_effect [OF raised(1)] raised(2) show ?thesis
      by simp
  next
    case (returned a s1)
    note b = epoch_body_effect [OF returned(1)]
    note l = Cons.IH [OF returned(2)]
    from l obtain tr where tr: "calls s' = calls s1 @ tr" "prefix tr (map Epoch rest)"
      "r = Inr () \<longrightarrow> tr = map Epoch rest" by blast
    from b obtain g l' where g: "train_on_batches lib epoch X (weights s) = Inr (g, l')"
      "weights s1 = g"
      by (auto split: sum.splits prod.splits)
    have c: "calls s' = calls s @ (Epoch epoch # tr)"
      using b tr(1) by simp
    have w: "weights_after lib X (epoch # rest) (weights s) = weights_after lib X rest (weights s1)"
      using g by simp
    show ?thesis
      using b l c tr(2,3) w by (intro conjI exI [of _ "Epoch epoch # tr"] impI) simp_all
  qed
qed

lemma call_generate_effect:
  assumes "call_generate lib inc notes s = (r, s')"
  shows "calls s' = calls s @ [Sampling]
       \<and> weights s' = weights s \<and> disc_loss s' = disc_loss s \<and> gen_loss s' = gen_loss s
       \<and> plot_saved s' = plot_saved s
       \<and> (r = Inr () \<longrightarrow>
            (\<exists>out. generate (valid_name lib) inc notes (predict lib (weights s)) = Inr out
                  \<and> midi_written s' = Some out))"
  using assms
  by (auto simp: call_generate_def then_do_def enter_def split: sum.splits)

lemma call_plot_loss_effect:
  assumes "call_plot_loss lib s = (r, s')"
  shows "calls s' = calls s @ [LossPlot]
       \<and> weights s' = weights s \<and> disc_loss s' = disc_loss s \<and> gen_loss s' = gen_loss s
       \<and> midi_written s' = midi_written s
       \<and> (r = Inr () \<longrightarrow> plot_saved s' = Some (disc_loss s, gen_loss s))"
  using assms
  by (auto simp: call_plot_loss_def then_do_def enter_def split: option.splits)

lemma epochs_only:
  assumes "prefix tr (map Epoch es)"
  shows "Sampling \<notin> set tr \<and> LossPlot \<notin> set tr"
proof -
  from assms have "set tr \<subseteq> set (map Epoch es)" by (rule set_mono_prefix)
  then show ?thesis by auto
qed

text \<open>
  C8, as the code has it. The stages of \<open>train\<close> stand in one order: corpus scan,
  vocabulary build, windowing, the epochs of the training loop in turn, sampling and
  decoding, loss plot, each once. In every run the stages entered are an initial part
  of that order; if \<open>generate\<close> or \<open>plot_loss\<close> is entered at all, every epoch of the
  loop has been entered before it; the MIDI file is written only in a run that enters
  \<open>generate\<close> and the figure only in one that enters \<open>plot_loss\<close>. A run that no
  exception ends enters all the stages: its sample is predicted with the weights that
  all the epochs have left, decoded with the notes of the corpus scan, and its figure
  shows the two lists of losses as all the epochs have left them.
\<close>

theorem pipeline_order:
  assumes "train lib sequence_length offset_increment epochs sample_interval s0 = (r, s)"
  shows "(\<exists>tr. calls s = calls s0 @ tr
            \<and> prefix tr (pipeline epochs)
            \<and> (r = Inr () \<longrightarrow> tr = pipeline epochs)
            \<and> (Sampling \<in> set tr \<or> LossPlot \<in> set tr \<longrightarrow>
                 prefix ([CorpusScan, VocabBuild, Windowing] @ map Epoch [0..<epochs] @ [Sampling]) tr)
            \<and> (Sampling \<notin> set tr \<longrightarrow> midi_written s = midi_written s0)
            \<and> (LossPlot \<notin> set tr \<longrightarrow> plot_saved s = plot_saved s0))
       \<and> distinct (pipeline epochs)
       \<and> (r = Inr () \<longrightarrow>
            (\<exists>notes X_train y_train out.
                get_notes (files lib) = Inr notes
              \<and> prepare_sequences (to_categorical lib) sequence_length notes (n_vocab notes)
                  = Inr (X_train, y_train)
              \<and> weights s = weights_after lib X_train [0..<epochs] (weights s0)
              \<and> generate (valid_name lib) offset_increment notes (predict lib (weights s)) = Inr out
              \<and> midi_written s = Some out
              \<and> plot_saved s = Some (disc_loss s, gen_loss s)
              \<and> length (disc_loss s) = length (disc_loss s0)
                  + length (filter (\<lambda>e. int e mod sample_interval = 0) [0..<epochs])
              \<and> length (gen_loss s) = length (gen_loss s0)
                  + length (filter (\<lambda>e. int e mod sample_interval = 0) [0..<epochs])))"
    (is "?order \<and> _ \<and> ?flow")
proof -
  have d: "distinct (pipeline epochs)"
    by (auto simp: pipeline_def distinct_map inj_on_def)
  let ?s1 = "s0\<lparr>calls := calls s0 @ [CorpusScan]\<rparr>"
  from assms have
    t: "then_do (call_get_notes lib) (\<lambda>notes.
     then_do (vocab_build notes) (\<lambda>nv.
     then_do (call_prepare_sequences lib sequence_length notes nv) (\<lambda>(X_train, y_train).
     then_do (epochs_loop lib X_train sample_interval [0..<epochs]) (\<lambda>_.
     then_do (call_generate lib offset_increment notes) (\<lambda>_.
     call_plot_loss lib))))) s0 = (r, s)"
    by (simp add: train_def)
  from t have "?order \<and> ?flow"
  proof (cases rule: then_do_cases)
    case (raised e)
    then have "calls s = calls s0 @ [CorpusScan]" "midi_written s = midi_written s0"
      "plot_saved s = plot_saved s0"
      by (auto simp: call_get_notes_eq)
    with raised(2) show ?thesis
      by (intro conjI exI [of _ "[CorpusScan]"]) (simp_all add: pipeline_def)
  next
    case g: (returned ns s1)
    then have n: "get_notes (files lib) = Inr ns" and s1: "s1 = ?s1"
      by (auto simp: call_get_notes_eq)
    from g(2) show ?thesis
    proof (cases rule: then_do_cases)
      case (raised e)
      then show ?thesis by (simp add: vocab_build_eq)
    next
      case v: (returned nv s2)
      then have nv: "nv = n_vocab ns" and s2: "s2 = s1\<lparr>calls := calls s1 @ [VocabBuild]\<rparr>"
        by (auto simp: vocab_build_eq)
      from v(2) show ?thesis
      proof (cases rule: then_do_cases)
        case (raised e)
        then have "calls s = calls s0 @ [CorpusScan, VocabBuild, Windowing]"
          "midi_written s = midi_written s0" "plot_saved s = plot_saved s0"
          by (auto simp: call_prepare_sequences_eq s1 s2)
        with raised(2) show ?thesis
          by (intro conjI exI [of _ "[CorpusScan, VocabBuild, Windowing]"])
            (simp_all add: pipeline_def)
      next
        case p: (returned Xy s3)
        obtain X_train y_train where Xy: "Xy = (X_train, y_train)" by (cases Xy)
        from p(1) have ps: "prepare_sequences (to_categorical lib) sequence_length ns
            (n_vocab ns) = Inr (X_train, y_train)"
          and s3: "s3 = s2\<lparr>calls := calls s2 @ [Windowing]\<rparr>"
          by (auto simp: call_prepare_sequences_eq nv Xy)
        have c3: "calls s3 = calls s0 @ [CorpusScan, VocabBuild, Windowing]"
          by (simp add: s1 s2 s3)
        have e3: "midi_written s3 = midi_written s0" "plot_saved s3 = plot_saved s0"
          "weights s3 = weights s0" "disc_loss s3 = disc_loss s0" "gen_loss s3 = gen_loss s0"
          by (simp_all add: s1 s2 s3)
        from p(2) have "then_do (epochs_loop lib X_train sample_interval [0..<epochs]) (\<lambda>_.
            then_do (call_generate lib offset_increment ns) (\<lambda>_.
            call_plot_loss lib)) s3 = (r, s)"
          by (simp add: Xy)
        then show ?thesis
        proof (cases rule: then_do_cases)
          case (raised e)
          from epochs_loop_effect [OF raised(1)] obtain tr4 where
            tr4: "calls s = calls s3 @ tr4" "prefix tr4 (map Epoch [0..<epochs])"
            and e4: "midi_written s = midi_written s3" "plot_saved s = plot_saved s3"
            by blast
          note o = epochs_only [OF tr4(2)]
          from tr4 e4 o raised(2) show ?thesis
            by (intro conjI exI [of _ "[CorpusScan, VocabBuild, Windowing] @ tr4"])
              (simp_all add: pipeline_def c3 e3)
        next
          case l: (returned u s4)
          from epochs_loop_effect [OF l(1)] have
            c4: "calls s4 = calls s3 @ map Epoch [0..<epochs]"
            and e4: "midi_written s4 = midi_written s3" "plot_saved s4 = plot_saved s3"
              "weights s4 = weights_after lib X_train [0..<epochs] (weights s3)"
              "length (disc_loss s4) = length (disc_loss s3)
                  + length (filter (\<lambda>e. int e mod sample_interval = 0) [0..<epochs])"
              "length (gen_loss s4) = length (gen_loss s3)
                  + length (filter (\<lambda>e. int e mod sample_interval = 0) [0..<epochs])"
            by auto
          from l(2) show ?thesis
          proof (cases rule: then_do_cases)
            case (raised e)
            note ge = call_generate_effect [OF raised(1)]
            from ge raised(2) show ?thesis
              by (intro conjI exI [of _ "[CorpusScan, VocabBuild, Windowing]
                    @ map Epoch [0..<epochs] @ [Sampling]"])
                (simp_all add: pipeline_def c3 c4 e3 e4)
          next
            case gen: (returned u' s5)
            note ge = call_generate_effect [OF gen(1)]
            note pe = call_plot_loss_effect [OF gen(2)]
            from ge obtain out where out:
              "generate (valid_name lib) offset_increment ns (predict lib (weights s4)) = Inr out"
              "midi_written s5 = Some out"
              by auto
            have cs: "calls s = calls s0 @ pipeline epochs"
              using ge pe by (simp add: pipeline_def c3 c4)
            have ws: "weights s = weights s4"
              using ge pe by simp
            have "?order"
              using cs d by (intro exI [of _ "pipeline epochs"]) (simp add: pipeline_def)
            moreover have "?flow"
            proof
              assume "r = Inr ()"
              with pe have "plot_saved s = Some (disc_loss s, gen_loss s)" by simp
              moreover have "midi_written s = Some out" using pe out(2) by simp
              moreover have "length (disc_loss s) = length (disc_loss s0)
                  + length (filter (\<lambda>e. int e mod sample_interval = 0) [0..<epochs])"
                "length (gen_loss s) = length (gen_loss s0)
                  + length (filter (\<lambda>e. int e mod sample_interval = 0) [0..<epochs])"
                using ge pe e4 e3 by simp_all
              moreover have "weights s = weights_after lib X_train [0..<epochs] (weights s0)"
                using ws e4 e3 by simp
              moreover have "generate (valid_name lib) offset_increment ns
                  (predict lib (weights s)) = Inr out"
                using out(1) ws by simp
              ultimately show "\<exists>notes X_train y_train out.
                get_notes (files lib) = Inr notes
              \<and> prepare_sequences (to_categorical lib) sequence_length notes (n_vocab notes)
                  = Inr (X_train, y_train)
              \<and> weights s = weights_after lib X_train [0..<epochs] (weights s0)
              \<and> generate (valid_name lib) offset_increment notes (predict lib (weights s)) = Inr out
              \<and> midi_written s = Some out
              \<and> plot_saved s = Some (disc_loss s, gen_loss s)
              \<and> length (disc_loss s) = length (disc_loss s0)
                  + length (filter (\<lambda>e. int e mod sample_interval = 0) [0..<epochs])
              \<and> length (gen_loss s) = length (gen_loss s0)
                  + length (filter (\<lambda>e. int e mod sample_interval = 0) [0..<epochs])"
                using n ps by blast
            qed
            ultimately show ?thesis ..
          qed
        qed
      qed
    qed
  qed
  with d show ?thesis by blast
qed

theorem pipeline_order_witness:
  "train \<lparr>files = [Inr \<lparr>by_instrument = Inr [Note ''C4'', Note ''E4'', Note ''C4''],
                           flat_notes = Inr []\<rparr>],
          to_categorical = Inr,
          train_on_batches = (\<lambda>epoch X_train g. Inr (Suc g, 1, 3, 2)),
          predict = (\<lambda>g. if g = 2 then [- 483 / 484, - 241 / 242] else [1 / 2]),
          valid_name = (\<lambda>s. True), savefig = None\<rparr>
     2 (1 / 2) 2 1
     \<lparr>calls = [], weights = 0, disc_loss = [], gen_loss = [],
      midi_written = None, plot_saved = None\<rparr>
   = (Inr (),
      \<lparr>calls = [CorpusScan, VocabBuild, Windowing, Epoch 0, Epoch 1, Sampling, LossPlot],
       weights = 2, disc_loss = [2, 2], gen_loss = [2, 2],
       midi_written = Some [OutNote (Name ''C'') 0, OutNote (Name ''E'') (1 / 2)],
       plot_saved = Some ([2, 2], [2, 2])\<rparr>)
   \<and> [CorpusScan, VocabBuild, Windowing, Epoch 0, Epoch 1, Sampling, LossPlot] = pipeline 2"
proof -
  have v: "train \<lparr>files = [Inr \<lparr>by_instrument = Inr [Note ''C4'', Note ''E4'', Note ''C4''],
                           flat_notes = Inr []\<rparr>],
          to_categorical = Inr,
          train_on_batches = (\<lambda>epoch X_train g. Inr (Suc g, 1, 3, 2)),
          predict = (\<lambda>g. if g = 2 then [- 483 / 484, - 241 / 242] else [1 / 2]),
          valid_name = (\<lambda>s. True), savefig = None\<rparr>
     2 (1 / 2) 2 1
     \<lparr>calls = [], weights = 0, disc_loss = [], gen_loss = [],
      midi_written = None, plot_saved = None\<rparr>
   = (Inr (),
      \<lparr>calls = [CorpusScan, VocabBuild, Windowing, Epoch 0, Epoch 1, Sampling, LossPlot],
       weights = 2, disc_loss = [2, 2], gen_loss = [2, 2],
       midi_written = Some [OutNote (Name ''C'') 0, OutNote (Name ''E'') (1 / 2)],
       plot_saved = Some ([2, 2], [2, 2])\<rparr>)"
    by code_simp
  from pipeline_order [OF v, THEN conjunct1] obtain tr where
    "calls \<lparr>calls = [CorpusScan, VocabBuild, Windowing, Epoch 0, Epoch 1, Sampling, LossPlot],
       weights = 2::nat, disc_loss = [2, 2], gen_loss = [2, 2],
       midi_written = Some [OutNote (Name ''C'') 0, OutNote (Name ''E'') (1 / 2)],
       plot_saved = Some ([2, 2], [2, 2])\<rparr>
     = calls \<lparr>calls = [], weights = 0::nat, disc_loss = [], gen_loss = [],
      midi_written = None, plot_saved = None\<rparr> @ tr"
    and "(Inr () :: error + unit) = Inr () \<longrightarrow> tr = pipeline 2"
    by (elim exE conjE)
  then have "[CorpusScan, VocabBuild, Windowing, Epoch 0, Epoch 1, Sampling, LossPlot] = pipeline 2"
    by simp
  with v show ?thesis by (intro conjI)
qed

text \<open>
  That every run performs all the stages does not hold: an exception is handled
  nowhere in \<open>train\<close>, so a stage that raises ends the run. Here \<open>converter.parse\<close>
  raises on the only file: the corpus scan is the only stage entered, the weights are
  untouched and nothing is written.
\<close>

theorem pipeline_order_counterexample:
  "train \<lparr>files = [Inl LibraryError],
          to_categorical = Inr,
          train_on_batches = (\<lambda>epoch X_train g. Inr (Suc g, 1, 3, 2)),
          predict = (\<lambda>g. [- 483 / 484]),
          valid_name = (\<lambda>s. True), savefig = None\<rparr>
     2 (1 / 2) 2 1
     \<lparr>calls = [], weights = 0, disc_loss = [], gen_loss = [],
      midi_written = None, plot_saved = None\<rparr>
   = (Inl LibraryError,
      \<lparr>calls = [CorpusScan], weights = 0, disc_loss = [], gen_loss = [],
       midi_written = None, plot_saved = None\<rparr>)"
  by code_simp

end
